theory Spec2Isabelle
  imports
    Complex_Main
    "HOL-Library.Char_ord"
    "HOL-Library.List_Lexorder"
    "HOL-Library.Product_Lexorder"
    "HOL-Library.Sublist"
begin

section \<open>Python values used by the ledger builder\<close>

text \<open>
  Exceptions of the source are values. Only the class of the exception matters to the
  callers modelled here (every handler in the source is \<^verbatim>\<open>except Exception\<close>).
\<close>

datatype py_error = ValueError | TypeError | KeyError

text \<open>
  A JSON document as Python holds it after \<^verbatim>\<open>json.load\<close>: a dict is an insertion-ordered
  list of key/value pairs (with distinct keys), a float is kept as the rational it denotes.
\<close>

datatype json =
    JNull
  | JBool bool
  | JInt int
  | JFloat rat
  | JStr string
  | JList "json list"
  | JObj "(string \<times> json) list"

subsection \<open>Strings\<close>

fun join :: "string \<Rightarrow> string list \<Rightarrow> string" where
  "join sep [] = []"
| "join sep [x] = x"
| "join sep (x # y # ys) = x @ sep @ join sep (y # ys)"

definition endswith :: "string \<Rightarrow> string \<Rightarrow> bool" where
  "endswith s suf = suffix suf s"

definition startswith :: "string \<Rightarrow> string \<Rightarrow> bool" where
  "startswith s pre = prefix pre s"

fun digits :: "nat \<Rightarrow> string" where
  "digits n = (if n < 10 then [char_of (48 + n)] else digits (n div 10) @ [char_of (48 + n mod 10)])"

declare digits.simps [simp del]

definition str_of_int :: "int \<Rightarrow> string" where
  "str_of_int i = (if i < 0 then CHR ''-'' # digits (nat (- i)) else digits (nat i))"

subsection \<open>\<^verbatim>\<open>json.dumps(obj, ensure_ascii=False, sort_keys=True, separators=(",", ":"))\<close>\<close>

text \<open>
  String escaping of \<^verbatim>\<open>json.encoder.py_encode_basestring\<close>: backslash, double quote and the
  control characters below 0x20 are escaped, everything else is copied.
\<close>

definition hex_digit :: "nat \<Rightarrow> char" where
  "hex_digit n = (if n < 10 then char_of (48 + n) else char_of (87 + n))"

definition escape_char :: "char \<Rightarrow> string" where
  "escape_char c =
     (if c = CHR 0x5C then [CHR 0x5C, CHR 0x5C]
      else if c = CHR 0x22 then [CHR 0x5C, CHR 0x22]
      else if c = CHR 0x08 then [CHR 0x5C, CHR ''b'']
      else if c = CHR 0x0C then [CHR 0x5C, CHR ''f'']
      else if c = CHR 0x0A then [CHR 0x5C, CHR ''n'']
      else if c = CHR 0x0D then [CHR 0x5C, CHR ''r'']
      else if c = CHR 0x09 then [CHR 0x5C, CHR ''t'']
      else if (of_char c :: nat) < 32
        then [CHR 0x5C, CHR ''u'', CHR ''0'', CHR ''0'',
              hex_digit (of_char c div 16), hex_digit (of_char c mod 16)]
      else [c])"

definition encode_basestring :: "string \<Rightarrow> string" where
  "encode_basestring s = [CHR 0x22] @ concat (map escape_char s) @ [CHR 0x22]"

text \<open>
  The serialisation itself. \<open>float_repr\<close> is Python's \<^verbatim>\<open>float.__repr__\<close>, a parameter of the
  model. With \<^verbatim>\<open>sort_keys=True\<close> the encoder walks \<^verbatim>\<open>sorted(dct.items())\<close>; the keys of a dict
  are distinct, so that is the items in the order of their keys.
\<close>

fun dumps :: "(rat \<Rightarrow> string) \<Rightarrow> json \<Rightarrow> string" where
  "dumps float_repr JNull = ''null''"
| "dumps float_repr (JBool b) = (if b then ''true'' else ''false'')"
| "dumps float_repr (JInt i) = str_of_int i"
| "dumps float_repr (JFloat x) = float_repr x"
| "dumps float_repr (JStr s) = encode_basestring s"
| "dumps float_repr (JList xs) = ''['' @ join '','' (map (dumps float_repr) xs) @ '']''"
| "dumps float_repr (JObj kvs) =
     ''{'' @ join '',''
        (map (\<lambda>kv. encode_basestring (fst kv) @ '':'' @ dumps float_repr (snd kv)) (sort_key fst kvs))
      @ ''}''"

text \<open>
  \<open>sha256_hex\<close> is \<^verbatim>\<open>hashlib.sha256(s.encode("utf-8")).hexdigest()\<close>, a parameter of the model.
\<close>

definition canonical_json_hash :: "(string \<Rightarrow> string) \<Rightarrow> (rat \<Rightarrow> string) \<Rightarrow> json \<Rightarrow> string" where
  "canonical_json_hash sha256_hex float_repr obj = sha256_hex (dumps float_repr obj)"

section \<open>Timestamps\<close>

text \<open>
  A \<^verbatim>\<open>datetime\<close> in UTC, with the fields the Python object has. All timestamps modelled here
  are aware datetimes in UTC (what \<^verbatim>\<open>parse_ts\<close> returns for epoch milliseconds, for a trailing
  \<^verbatim>\<open>Z\<close> and for a naive ISO string).
\<close>

record datetime =
  year :: nat
  month :: nat
  day :: nat
  hour :: nat
  minute :: nat
  second :: nat
  microsecond :: nat

text \<open>Comparison of two datetimes in the same zone compares the field tuples.\<close>

definition dt_key :: "datetime \<Rightarrow> nat \<times> nat \<times> nat \<times> nat \<times> nat \<times> nat \<times> nat" where
  "dt_key d = (year d, month d, day d, hour d, minute d, second d, microsecond d)"

text \<open>Subtraction goes through the proleptic Gregorian ordinal, as in CPython's \<^verbatim>\<open>datetime\<close>.\<close>

definition is_leap :: "nat \<Rightarrow> bool" where
  "is_leap y = (y mod 4 = 0 \<and> (y mod 100 \<noteq> 0 \<or> y mod 400 = 0))"

definition days_before_year :: "nat \<Rightarrow> int" where
  "days_before_year y =
     (let y1 = int y - 1 in y1 * 365 + y1 div 4 - y1 div 100 + y1 div 400)"

definition DAYS_BEFORE_MONTH :: "int list" where
  "DAYS_BEFORE_MONTH = [-1, 0, 31, 59, 90, 120, 151, 181, 212, 243, 273, 304, 334]"

definition days_before_month :: "nat \<Rightarrow> nat \<Rightarrow> int" where
  "days_before_month y m = DAYS_BEFORE_MONTH ! m + (if m > 2 \<and> is_leap y then 1 else 0)"

definition ymd2ord :: "nat \<Rightarrow> nat \<Rightarrow> nat \<Rightarrow> int" where
  "ymd2ord y m d = days_before_year y + days_before_month y m + int d"

text \<open>A \<^verbatim>\<open>timedelta\<close> is its number of microseconds.\<close>

definition total_us :: "datetime \<Rightarrow> int" where
  "total_us d =
     (((ymd2ord (year d) (month d) (day d) * 24 + int (hour d)) * 60 + int (minute d)) * 60
        + int (second d)) * 1000000 + int (microsecond d)"

definition dt_sub :: "datetime \<Rightarrow> datetime \<Rightarrow> int" where
  "dt_sub a b = total_us a - total_us b"

definition timedelta_minutes :: "int \<Rightarrow> int" where
  "timedelta_minutes m = m * 60 * 1000000"

text \<open>
  \<^verbatim>\<open>isoformat()\<close> of an aware UTC datetime: the microseconds are printed only when they are
  not zero, and the offset \<^verbatim>\<open>+00:00\<close> ends the string.
\<close>

definition zpad :: "nat \<Rightarrow> nat \<Rightarrow> string" where
  "zpad w n = replicate (w - length (digits n)) CHR ''0'' @ digits n"

definition iso_body :: "datetime \<Rightarrow> string" where
  "iso_body d =
     zpad 4 (year d) @ ''-'' @ zpad 2 (month d) @ ''-'' @ zpad 2 (day d) @ ''T''
     @ zpad 2 (hour d) @ '':'' @ zpad 2 (minute d) @ '':'' @ zpad 2 (second d)
     @ (if microsecond d \<noteq> 0 then ''.'' @ zpad 6 (microsecond d) else [])"

definition isoformat :: "datetime \<Rightarrow> string" where
  "isoformat d = iso_body d @ ''+00:00''"

text \<open>
  \<^verbatim>\<open>isoformat().replace("+00:00", "Z")\<close>: the body holds no \<^verbatim>\<open>+\<close>, so the one occurrence
  replaced is the offset at the end.
\<close>

definition isoformat_z :: "datetime \<Rightarrow> string" where
  "isoformat_z d = iso_body d @ ''Z''"

section \<open>Session inference (\<^verbatim>\<open>build_ledger.infer_sessions\<close>)\<close>

record LogRow =
  ts :: datetime
  ip :: string
  ua :: string
  path :: string
  host :: string
  http_method :: string
  status :: string

text \<open>One entry of \<^verbatim>\<open>sessions_inferred\<close>; \<open>s_path\<close> is the key \<^verbatim>\<open>path\<close> of the session dict.\<close>

record session =
  session_id :: string
  window_start :: string
  window_end :: string
  client_fingerprint_hash :: string
  confidence :: rat
  s_path :: "string list"
  path_categories :: "string list"
  signals :: "string list"
  confidence_level :: string
  primary_signal :: string
  human_readable_hypothesis :: string
  warning :: string

definition fingerprint_hash :: "(string \<Rightarrow> string) \<Rightarrow> string \<Rightarrow> string \<Rightarrow> string \<Rightarrow> string" where
  "fingerprint_hash sha256_hex ip' ua' salt = sha256_hex (ip' @ ''|'' @ ua' @ ''|'' @ salt)"

text \<open>\<^verbatim>\<open>x or d\<close> on strings.\<close>

definition str_or :: "string \<Rightarrow> string \<Rightarrow> string" where
  "str_or x d = (if x = [] then d else x)"

text \<open>
  \<^verbatim>\<open>grouped[fp].append(r)\<close> on a \<^verbatim>\<open>defaultdict(list)\<close>: a dict keeps its keys in the order of
  their first insertion.
\<close>

fun group_append :: "string \<Rightarrow> LogRow \<Rightarrow> (string \<times> LogRow list) list \<Rightarrow> (string \<times> LogRow list) list" where
  "group_append fp r [] = [(fp, [r])]"
| "group_append fp r ((k, rs) # g) =
     (if k = fp then (k, rs @ [r]) # g else (k, rs) # group_append fp r g)"

definition group_rows :: "(string \<Rightarrow> string) \<Rightarrow> string \<Rightarrow> LogRow list \<Rightarrow> (string \<times> LogRow list) list" where
  "group_rows sha256_hex salt rows =
     foldl (\<lambda>grouped r.
              group_append (fingerprint_hash sha256_hex (str_or (ip r) ''noip'') (str_or (ua r) ''noua'') salt) r grouped)
           [] rows"

definition is_gov :: "string list \<Rightarrow> string \<Rightarrow> bool" where
  "is_gov gov_exact_paths p = (if gov_exact_paths \<noteq> [] then p \<in> set gov_exact_paths else True)"

definition classify :: "(string \<rightharpoonup> string) \<Rightarrow> string \<Rightarrow> string" where
  "classify path_to_category p = (case path_to_category p of Some c \<Rightarrow> c | None \<Rightarrow> ''other'')"

text \<open>
  \<^verbatim>\<open>round(confidence, 2)\<close>. The source computes in binary floating point; the model computes
  in exact rationals and rounds to the nearest hundredth.
\<close>

definition round2 :: "rat \<Rightarrow> rat" where
  "round2 x = of_int (round (x * 100)) / 100"

definition yaml_present :: "string list \<Rightarrow> bool" where
  "yaml_present paths = (\<exists>p \<in> set paths. endswith p ''.yml'' \<or> endswith p ''.yaml'')"

definition jsonld_present :: "string list \<Rightarrow> bool" where
  "jsonld_present paths = (\<exists>p \<in> set paths. endswith p ''.jsonld'')"

definition gov_hits_of :: "string list \<Rightarrow> string list \<Rightarrow> nat" where
  "gov_hits_of gov_exact_paths paths = length (filter (is_gov gov_exact_paths) paths)"

definition base_signals :: "nat \<Rightarrow> nat \<Rightarrow> string list \<Rightarrow> string list" where
  "base_signals gov_hits revisits paths =
     (if gov_hits \<ge> 1 then [''governance_path_hit''] else [])
     @ (if gov_hits \<ge> 2 then [''multiple_governance_hits''] else [])
     @ (if yaml_present paths then [''yaml_accessed''] else [])
     @ (if jsonld_present paths then [''jsonld_accessed''] else [])
     @ (if revisits > 0 then [''path_revisited''] else [])"

text \<open>The confidence before rounding: base, the two bonuses, then the clamp.\<close>

definition raw_confidence :: "nat \<Rightarrow> nat \<Rightarrow> string list \<Rightarrow> rat" where
  "raw_confidence total' gov_hits paths =
     (let ratio = of_nat gov_hits / of_nat (max total' 1);
          c0 = 20 / 100 + ratio * (55 / 100);
          c1 = (if yaml_present paths \<and> \<not> jsonld_present paths then c0 + 10 / 100 else c0);
          c2 = (if total' \<ge> 5 \<and> gov_hits \<ge> 3 then c1 + 10 / 100 else c1);
          cap = (if total' = 1 then 55 / 100 else 95 / 100)
      in min cap (max (5 / 100) c2))"

definition all_signals :: "nat \<Rightarrow> nat \<Rightarrow> nat \<Rightarrow> string list \<Rightarrow> string list" where
  "all_signals total' gov_hits revisits paths =
     base_signals gov_hits revisits paths
     @ (if yaml_present paths \<and> \<not> jsonld_present paths then [''yaml_preference_observed''] else [])
     @ (if total' \<ge> 5 \<and> gov_hits \<ge> 3 then [''systematic_governance_check''] else [])"

text \<open>The body of \<^verbatim>\<open>flush\<close> for a chunk that is not empty.\<close>

definition make_session ::
  "(string \<Rightarrow> string) \<Rightarrow> string list \<Rightarrow> (string \<rightharpoonup> string) \<Rightarrow> string \<Rightarrow> LogRow list \<Rightarrow> session" where
  "make_session sha256_hex gov_exact_paths path_to_category fp chunk =
     (let paths = map path chunk;
          cats = map (classify path_to_category) paths;
          total' = length paths;
          gov_hits = gov_hits_of gov_exact_paths paths;
          revisits = total' - card (set paths);
          sigs = all_signals total' gov_hits revisits paths;
          conf = raw_confidence total' gov_hits paths;
          level = (if total' = 1 then ''low''
                   else if conf \<ge> 75 / 100 then ''high''
                   else if conf \<ge> 50 / 100 then ''medium''
                   else ''low'');
          primary = (if ''yaml_preference_observed'' \<in> set sigs then ''yaml_preference''
                     else if gov_hits \<ge> 2 then ''governance_sequence''
                     else if gov_hits = 1 then ''single_governance_hit''
                     else ''unknown'');
          start = ts (hd chunk);
          end' = ts (last chunk);
          sid = take 16 (sha256_hex (fp @ ''|'' @ isoformat start @ ''|'' @ isoformat end'))
      in \<lparr> session_id = sid,
           window_start = isoformat_z start,
           window_end = isoformat_z end',
           client_fingerprint_hash = take 24 fp,
           confidence = round2 conf,
           s_path = paths,
           path_categories = cats,
           signals = sigs,
           confidence_level = level,
           primary_signal = primary,
           human_readable_hypothesis =
             (if conf \<ge> 60 / 100 \<and> total' \<ge> 2
              then ''comportement compatible avec un agent autonome''
              else ''hypothese faible''),
           warning = ''aucune preuve cryptographique d'' @ [CHR 0x27] @ ''identite'' \<rparr>)"

definition flush ::
  "(string \<Rightarrow> string) \<Rightarrow> string list \<Rightarrow> (string \<rightharpoonup> string) \<Rightarrow> string \<Rightarrow> LogRow list \<Rightarrow> session list" where
  "flush sha256_hex gov_exact_paths path_to_category fp chunk =
     (if chunk = [] then [] else [make_session sha256_hex gov_exact_paths path_to_category fp chunk])"

text \<open>
  The walk over one group: \<open>walk gap current items\<close> returns the chunks handed to \<^verbatim>\<open>flush\<close>, in
  order, the last one being the \<^verbatim>\<open>flush(current)\<close> after the loop.
\<close>

fun walk :: "int \<Rightarrow> LogRow list \<Rightarrow> LogRow list \<Rightarrow> LogRow list list" where
  "walk gap current [] = [current]"
| "walk gap current (r # items) =
     (if current = [] then walk gap [r] items
      else if dt_sub (ts r) (ts (last current)) \<le> gap then walk gap (current @ [r]) items
      else current # walk gap [r] items)"

definition group_sessions ::
  "(string \<Rightarrow> string) \<Rightarrow> int \<Rightarrow> string list \<Rightarrow> (string \<rightharpoonup> string) \<Rightarrow> string \<times> LogRow list \<Rightarrow> session list" where
  "group_sessions sha256_hex gap gov_exact_paths path_to_category g =
     concat (map (flush sha256_hex gov_exact_paths path_to_category (fst g))
                 (walk gap [] (sort_key (\<lambda>x. dt_key (ts x)) (snd g))))"

definition infer_sessions ::
  "(string \<Rightarrow> string) \<Rightarrow> LogRow list \<Rightarrow> string \<Rightarrow> string \<Rightarrow> int \<Rightarrow> string list \<Rightarrow> (string \<rightharpoonup> string) \<Rightarrow> session list" where
  "infer_sessions sha256_hex rows site_host salt gap_minutes gov_exact_paths path_to_category =
     (let rows' = (if site_host \<noteq> [] then filter (\<lambda>r. host r = site_host) rows else rows);
          grouped = group_rows sha256_hex salt rows';
          gap = timedelta_minutes gap_minutes;
          sessions = concat (map (group_sessions sha256_hex gap gov_exact_paths path_to_category) grouped)
      in sort_key window_start sessions)"

section \<open>Ledger state and assembly (\<^verbatim>\<open>load_state\<close>, \<^verbatim>\<open>save_state\<close>, \<^verbatim>\<open>main\<close>)\<close>

subsection \<open>Dict operations\<close>

text \<open>\<^verbatim>\<open>d[k] = v\<close>: an existing key keeps its place, a new key goes to the end.\<close>

fun dict_set :: "string \<Rightarrow> json \<Rightarrow> (string \<times> json) list \<Rightarrow> (string \<times> json) list" where
  "dict_set k v [] = [(k, v)]"
| "dict_set k v ((k', v') # kvs) = (if k' = k then (k, v) # kvs else (k', v') # dict_set k v kvs)"

text \<open>\<^verbatim>\<open>d.get(k, default)\<close>.\<close>

definition dict_get :: "(string \<times> json) list \<Rightarrow> string \<Rightarrow> json \<Rightarrow> json" where
  "dict_get d k dflt = (case map_of d k of Some v \<Rightarrow> v | None \<Rightarrow> dflt)"

text \<open>\<^verbatim>\<open>del d[k]\<close> for a key that is present.\<close>

definition dict_del :: "string \<Rightarrow> (string \<times> json) list \<Rightarrow> (string \<times> json) list" where
  "dict_del k d = filter (\<lambda>kv. fst kv \<noteq> k) d"

subsection \<open>The state file\<close>

text \<open>
  What the state file holds on disk: nothing (no file), the JSON object written by a completed
  \<^verbatim>\<open>json.dump\<close> (kept as the object \<^verbatim>\<open>json.load\<close> reads back), or the file as \<^verbatim>\<open>open(path, "w")\<close>
  leaves it before the text has been written out in full: empty or a proper prefix of the text
  of an object, which \<^verbatim>\<open>json.load\<close> rejects.
\<close>

datatype disk = Absent | Truncated | Holds "(string \<times> json) list"

definition load_state :: "disk \<Rightarrow> py_error + (string \<times> json) list" where
  "load_state file =
     (case file of
        Absent \<Rightarrow> Inr [(''ledger_sequence'', JInt 0), (''last_ledger_hash'', JNull)]
      | Truncated \<Rightarrow> Inl ValueError
      | Holds data \<Rightarrow>
          (let data1 = (if map_of data ''ledger_sequence'' = None
                        then dict_set ''ledger_sequence'' (JInt 0) data else data);
               data2 = (if map_of data1 ''last_ledger_hash'' = None
                        then dict_set ''last_ledger_hash'' JNull data1 else data1)
           in Inr data2))"

text \<open>
  \<^verbatim>\<open>save_state\<close> opens the state file itself for writing and dumps the state into it. The steps
  give the content of the file after \<^verbatim>\<open>open(path, "w")\<close> and after the \<^verbatim>\<open>with\<close> block has closed
  the file; \<^verbatim>\<open>os.makedirs\<close> before them does not touch the file.
\<close>

definition save_state_steps :: "(string \<times> json) list \<Rightarrow> disk list" where
  "save_state_steps state = [Truncated, Holds state]"

definition save_state :: "(string \<times> json) list \<Rightarrow> disk" where
  "save_state state = last (save_state_steps state)"

text \<open>The contents the state file can have when the process stops at some point of the write.\<close>

definition crash_states :: "disk \<Rightarrow> (string \<times> json) list \<Rightarrow> disk list" where
  "crash_states old state = old # save_state_steps state"

subsection \<open>\<^verbatim>\<open>int(x)\<close> on a JSON value\<close>

definition isdigit :: "string \<Rightarrow> bool" where
  "isdigit s = (s \<noteq> [] \<and> (\<forall>c \<in> set s. CHR ''0'' \<le> c \<and> c \<le> CHR ''9''))"

definition nat_of_digits :: "string \<Rightarrow> nat" where
  "nat_of_digits s = foldl (\<lambda>n c. 10 * n + (of_char c - 48)) 0 s"

text \<open>The ASCII characters that \<^verbatim>\<open>str.strip()\<close> removes.\<close>

definition is_space :: "char \<Rightarrow> bool" where
  "is_space c = (c \<in> set [CHR '' '', CHR 0x09, CHR 0x0A, CHR 0x0B, CHR 0x0C, CHR 0x0D,
                            CHR 0x1C, CHR 0x1D, CHR 0x1E, CHR 0x1F])"

definition strip :: "string \<Rightarrow> string" where
  "strip s = rev (dropWhile is_space (rev (dropWhile is_space s)))"

text \<open>
  Strings are read as ASCII decimal literals with an optional sign; the digit grouping with
  underscores that Python also accepts is not modelled.
\<close>

definition int_of_str :: "string \<Rightarrow> py_error + int" where
  "int_of_str s =
     (let t = strip s in
      case t of
        [] \<Rightarrow> Inl ValueError
      | c # r \<Rightarrow>
          if c = CHR ''-'' then (if isdigit r then Inr (- int (nat_of_digits r)) else Inl ValueError)
          else if c = CHR ''+'' then (if isdigit r then Inr (int (nat_of_digits r)) else Inl ValueError)
          else if isdigit t then Inr (int (nat_of_digits t)) else Inl ValueError)"

fun py_int :: "json \<Rightarrow> py_error + int" where
  "py_int (JInt n) = Inr n"
| "py_int (JBool b) = Inr (if b then 1 else 0)"
| "py_int (JFloat x) = Inr (if x \<ge> 0 then \<lfloor>x\<rfloor> else \<lceil>x\<rceil>)"
| "py_int (JStr s) = int_of_str s"
| "py_int JNull = Inl TypeError"
| "py_int (JList xs) = Inl TypeError"
| "py_int (JObj kvs) = Inl TypeError"

subsection \<open>The ledger document\<close>

definition session_json :: "session \<Rightarrow> json" where
  "session_json s =
     JObj [(''session_id'', JStr (session_id s)),
           (''window_utc'', JObj [(''start'', JStr (window_start s)), (''end'', JStr (window_end s))]),
           (''client_fingerprint_hash'', JStr (client_fingerprint_hash s)),
           (''confidence'', JFloat (confidence s)),
           (''path'', JList (map JStr (s_path s))),
           (''path_categories'', JList (map JStr (path_categories s))),
           (''signals'', JList (map JStr (signals s))),
           (''agent_classification'',
              JObj [(''confidence_level'', JStr (confidence_level s)),
                    (''primary_signal'', JStr (primary_signal s)),
                    (''human_readable_hypothesis'', JStr (human_readable_hypothesis s)),
                    (''warning'', JStr (warning s))])]"

text \<open>The dict literal of \<^verbatim>\<open>main\<close>, with the items of its \<^verbatim>\<open>integrity\<close> block as an argument.\<close>

definition ledger_doc ::
  "int \<Rightarrow> json \<Rightarrow> string \<Rightarrow> int \<Rightarrow> json \<Rightarrow> json \<Rightarrow> session list \<Rightarrow> (string \<times> json) list \<Rightarrow> json" where
  "ledger_doc ledger_sequence site generated gap_minutes export_window ingest_stats sessions integrity =
     JObj [(''ledger_version'', JStr ''1.1''),
           (''ledger_sequence'', JInt ledger_sequence),
           (''site'', site),
           (''generated_utc'', JStr generated),
           (''method'',
              JObj [(''name'', JStr ''ledger-derived-from-logs''),
                    (''version'', JStr ''session-inference-1.5''),
                    (''session_gap_minutes'', JInt gap_minutes),
                    (''notes'', JStr ''sessions inferred from logs; no model identity is asserted'')]),
           (''export_window'', export_window),
           (''input_stats'', ingest_stats),
           (''sessions_inferred'', JList (map session_json sessions)),
           (''attestations_validated'', JList []),
           (''integrity'', JObj integrity)]"

definition integrity_block :: "json \<Rightarrow> (string \<times> json) list" where
  "integrity_block previous_hash =
     [(''previous_ledger_hash_sha256'', previous_hash),
      (''canonicalization'',
         JStr (''json(sort_keys=true,separators=('' @ [CHR 0x27] @ '','' @ [CHR 0x27, CHR '','', CHR 0x27]
               @ '':'' @ [CHR 0x27] @ ''))''))]"

text \<open>
  \<^verbatim>\<open>main\<close> from the call of \<^verbatim>\<open>load_state\<close> onwards. What the lines before it produce (the
  configuration values, the ingestion statistics and the inferred sessions) and the clock
  reading \<open>generated\<close> are arguments. The result is the ledger written out and the state
  file as \<^verbatim>\<open>save_state\<close> leaves it.
\<close>

definition main ::
  "(string \<Rightarrow> string) \<Rightarrow> (rat \<Rightarrow> string) \<Rightarrow> json \<Rightarrow> string \<Rightarrow> int \<Rightarrow> json \<Rightarrow> json \<Rightarrow> session list \<Rightarrow> disk
     \<Rightarrow> py_error + (json \<times> disk)" where
  "main sha256_hex float_repr site generated gap_minutes export_window ingest_stats sessions state_file =
     (case load_state state_file of
        Inl e \<Rightarrow> Inl e
      | Inr state \<Rightarrow>
          (case py_int (dict_get state ''ledger_sequence'' (JInt 0)) of
             Inl e \<Rightarrow> Inl e
           | Inr n \<Rightarrow>
               (let ledger_sequence = n + 1;
                    previous_hash = dict_get state ''last_ledger_hash'' JNull;
                    integrity = integrity_block previous_hash;
                    ledger_hash = canonical_json_hash sha256_hex float_repr
                      (ledger_doc ledger_sequence site generated gap_minutes export_window
                         ingest_stats sessions integrity);
                    ledger = ledger_doc ledger_sequence site generated gap_minutes export_window
                         ingest_stats sessions (dict_set ''content_hash_sha256'' (JStr ledger_hash) integrity)
                in Inr (ledger,
                        save_state [(''ledger_sequence'', JInt ledger_sequence),
                                    (''last_ledger_hash'', JStr ledger_hash)]))))"

text \<open>Reading a ledger back: \<^verbatim>\<open>ledger[k]\<close> and \<^verbatim>\<open>ledger["integrity"][k]\<close>.\<close>

definition ledger_field :: "json \<Rightarrow> string \<Rightarrow> json option" where
  "ledger_field ledger k = (case ledger of JObj kvs \<Rightarrow> map_of kvs k | _ \<Rightarrow> None)"

definition integrity_field :: "json \<Rightarrow> string \<Rightarrow> json option" where
  "integrity_field ledger k =
     (case ledger_field ledger ''integrity'' of Some i \<Rightarrow> ledger_field i k | None \<Rightarrow> None)"

text \<open>The ledger with \<^verbatim>\<open>del ledger["integrity"]["content_hash_sha256"]\<close> applied.\<close>

definition without_content_hash :: "json \<Rightarrow> json" where
  "without_content_hash ledger =
     (case ledger of
        JObj kvs \<Rightarrow>
          (case map_of kvs ''integrity'' of
             Some (JObj i) \<Rightarrow> JObj (dict_set ''integrity'' (JObj (dict_del ''content_hash_sha256'' i)) kvs)
           | _ \<Rightarrow> ledger)
      | _ \<Rightarrow> ledger)"

text \<open>
  Two documents with the same logical content: equal scalars, lists equal element by
  element, dicts with the same keys (each once) and the same content under each key.
\<close>

fun same_content :: "json \<Rightarrow> json \<Rightarrow> bool" where
  "same_content (JObj xs) (JObj ys) =
     (distinct (map fst xs) \<and> distinct (map fst ys) \<and> set (map fst xs) = set (map fst ys) \<and>
      (\<forall>kv \<in> set xs. case map_of ys (fst kv) of None \<Rightarrow> False | Some w \<Rightarrow> same_content (snd kv) w))"
| "same_content (JList xs) (JList ys) = list_all2 same_content xs ys"
| "same_content a b = (a = b)"

section \<open>CSV ingestion (\<^verbatim>\<open>parse_ts\<close>, \<^verbatim>\<open>normalize_path\<close>, \<^verbatim>\<open>load_rows\<close>)\<close>

definition lower_char :: "char \<Rightarrow> char" where
  "lower_char c = (if CHR ''A'' \<le> c \<and> c \<le> CHR ''Z'' then char_of (of_char c + (32::nat)) else c)"

definition lower :: "string \<Rightarrow> string" where
  "lower s = map lower_char s"

text \<open>
  The two constructors of the \<^verbatim>\<open>datetime\<close> library that \<^verbatim>\<open>parse_ts\<close> calls are parameters:
  \<^verbatim>\<open>datetime.fromisoformat(s)\<close> with the zone set to UTC, and
  \<^verbatim>\<open>datetime.fromtimestamp(ms / 1000.0, tz=timezone.utc)\<close>. Both can raise.
\<close>

record dt_lib =
  fromisoformat :: "string \<Rightarrow> py_error + datetime"
  fromtimestamp_ms :: "nat \<Rightarrow> py_error + datetime"

definition parse_ts :: "dt_lib \<Rightarrow> string \<Rightarrow> py_error + datetime" where
  "parse_ts lib ts' =
     (let raw = strip ts' in
      if raw = [] then Inl ValueError
      else if isdigit raw \<and> length raw \<ge> 12 then fromtimestamp_ms lib (nat_of_digits raw)
      else if endswith raw ''Z'' then fromisoformat lib (butlast raw)
      else fromisoformat lib raw)"

text \<open>\<^verbatim>\<open>s.find(pat)\<close>: the index of the first occurrence.\<close>

fun find_sub :: "string \<Rightarrow> string \<Rightarrow> nat option" where
  "find_sub pat [] = (if pat = [] then Some 0 else None)"
| "find_sub pat (c # s) = (if prefix pat (c # s) then Some 0 else map_option Suc (find_sub pat s))"

definition contains :: "string \<Rightarrow> string \<Rightarrow> bool" where
  "contains pat s = (find_sub pat s \<noteq> None)"

text \<open>\<^verbatim>\<open>s.split(sep, 1)\<close> when \<open>sep\<close> occurs in \<open>s\<close>: the parts before and after the first occurrence.\<close>

definition split_once :: "string \<Rightarrow> string \<Rightarrow> string \<times> string" where
  "split_once sep s =
     (case find_sub sep s of
        Some i \<Rightarrow> (take i s, drop (i + length sep) s)
      | None \<Rightarrow> (s, []))"

text \<open>\<^verbatim>\<open>u.replace("//", "/")\<close>: occurrences are replaced from the left, without overlap.\<close>

fun replace_dslash :: "string \<Rightarrow> string" where
  "replace_dslash (a # b # s) =
     (if a = CHR ''/'' \<and> b = CHR ''/'' then CHR ''/'' # replace_dslash s else a # replace_dslash (b # s))"
| "replace_dslash s = s"

lemma length_replace_dslash: "length (replace_dslash s) \<le> length s"
  by (induction s rule: replace_dslash.induct) auto

lemma contains_Cons: "contains pat (c # s) \<longleftrightarrow> prefix pat (c # s) \<or> contains pat s"
  by (simp add: contains_def)

lemma replace_dslash_shorter: "contains ''//'' s \<Longrightarrow> length (replace_dslash s) < length s"
proof (induction s rule: replace_dslash.induct)
  case (1 a b s)
  show ?case
  proof (cases "a = CHR ''/'' \<and> b = CHR ''/''")
    case True
    then show ?thesis using length_replace_dslash [of s] by simp
  next
    case False
    have "\<not> prefix ''//'' (a # b # s)" using False by auto
    then have "contains ''//'' (b # s)" using "1.prems" contains_Cons [of "''//''" a "b # s"] by blast
    then have "length (replace_dslash (b # s)) < length (b # s)" using "1.IH"(2) False by blast
    then show ?thesis using False by auto
  qed
qed (simp_all add: contains_def)

function collapse_slashes :: "string \<Rightarrow> string" where
  "collapse_slashes u = (if contains ''//'' u then collapse_slashes (replace_dslash u) else u)"
  by pat_completeness auto
termination
  by (relation "measure length") (auto simp: replace_dslash_shorter)

declare collapse_slashes.simps [simp del]

definition normalize_path :: "string \<Rightarrow> string" where
  "normalize_path uri =
     (let u0 = strip uri in
      if u0 = [] then []
      else
        let u1 = (if contains ''://'' u0
                  then (let r = snd (split_once ''://'' u0)
                        in case find_sub ''/'' r of Some i \<Rightarrow> drop i r | None \<Rightarrow> ''/'')
                  else u0);
            u2 = (if contains ''?'' u1 then fst (split_once ''?'' u1) else u1);
            u3 = (if contains ''#'' u2 then fst (split_once ''#'' u2) else u2);
            u4 = (if \<not> startswith u3 ''/'' then ''/'' @ u3 else u3)
        in collapse_slashes u4)"

text \<open>
  A row of \<^verbatim>\<open>csv.DictReader\<close>: field name to value. A field the line does not reach (\<^verbatim>\<open>None\<close>
  in Python) is read as the empty string by every use in \<^verbatim>\<open>load_rows\<close>, as a missing key is.
\<close>

type_synonym csv_row = "string \<rightharpoonup> string"

definition headers_map :: "string list \<Rightarrow> (string \<rightharpoonup> string)" where
  "headers_map fieldnames = fold (\<lambda>h m. m(lower h \<mapsto> h)) fieldnames Map.empty"

definition get_case_insensitive :: "csv_row \<Rightarrow> (string \<rightharpoonup> string) \<Rightarrow> string \<Rightarrow> string" where
  "get_case_insensitive row headers wanted =
     (let actual = (case headers (lower (strip wanted)) of Some a \<Rightarrow> a | None \<Rightarrow> [])
      in if actual \<noteq> [] then (case row actual of Some v \<Rightarrow> v | None \<Rightarrow> []) else [])"

record columns =
  col_ts :: string
  col_ip :: string
  col_ua :: string
  col_path :: string
  col_host :: string
  col_method :: "string option"
  col_status :: "string option"

text \<open>\<^verbatim>\<open>(_get_case_insensitive(r, headers, col) or "").strip() if col else ""\<close>.\<close>

definition optional_column :: "csv_row \<Rightarrow> (string \<rightharpoonup> string) \<Rightarrow> string option \<Rightarrow> string" where
  "optional_column row headers col =
     (case col of
        None \<Rightarrow> []
      | Some c \<Rightarrow> if c = [] then [] else strip (get_case_insensitive row headers c))"

record load_acc =
  acc_rows :: "LogRow list"
  total_rows :: nat
  skipped_rows :: nat

text \<open>
  One pass of the \<^verbatim>\<open>for r in reader\<close> loop. \<^verbatim>\<open>parse_ts\<close> is the one call of the \<^verbatim>\<open>try\<close> block that
  can raise; the \<^verbatim>\<open>continue\<close> on an empty path leaves both counters of the row untouched.
\<close>

definition load_row :: "dt_lib \<Rightarrow> columns \<Rightarrow> (string \<rightharpoonup> string) \<Rightarrow> load_acc \<Rightarrow> csv_row \<Rightarrow> load_acc" where
  "load_row lib cols headers acc r =
     (let acc1 = acc\<lparr>total_rows := total_rows acc + 1\<rparr> in
      case parse_ts lib (get_case_insensitive r headers (col_ts cols)) of
        Inl e \<Rightarrow> acc1\<lparr>skipped_rows := skipped_rows acc1 + 1\<rparr>
      | Inr t \<Rightarrow>
          (let ip' = strip (get_case_insensitive r headers (col_ip cols));
               ua' = strip (get_case_insensitive r headers (col_ua cols));
               path' = normalize_path (get_case_insensitive r headers (col_path cols));
               host' = strip (get_case_insensitive r headers (col_host cols));
               method' = optional_column r headers (col_method cols);
               status' = optional_column r headers (col_status cols)
           in if path' = [] then acc1
              else acc1\<lparr>acc_rows := acc_rows acc1 @
                     [\<lparr>ts = t, ip = ip', ua = ua', path = path', host = host',
                       http_method = method', status = status'\<rparr>]\<rparr>))"

record ingest_stats =
  rows_total :: nat
  rows_loaded :: nat
  rows_skipped :: nat

text \<open>
  \<^verbatim>\<open>load_rows\<close> on the header and the rows that the CSV reader yields; it returns the sorted
  rows and what it stores into \<^verbatim>\<open>stats_out\<close>.
\<close>

definition load_rows :: "dt_lib \<Rightarrow> columns \<Rightarrow> string list \<Rightarrow> csv_row list \<Rightarrow> LogRow list \<times> ingest_stats" where
  "load_rows lib cols fieldnames reader =
     (let headers = headers_map fieldnames;
          acc = foldl (load_row lib cols headers)
                  \<lparr>acc_rows = [], total_rows = 0, skipped_rows = 0\<rparr> reader;
          rows = sort_key (\<lambda>x. dt_key (ts x)) (acc_rows acc)
      in (rows, \<lparr>rows_total = total_rows acc, rows_loaded = length rows, rows_skipped = skipped_rows acc\<rparr>))"

section \<open>Path categories (\<^verbatim>\<open>build_ledger.build_category_map\<close>)\<close>

definition layer_paths :: "(string \<rightharpoonup> string list) \<Rightarrow> string \<Rightarrow> string list" where
  "layer_paths layers k = (case layers k of Some ps \<Rightarrow> ps | None \<Rightarrow> [])"

text \<open>The local function \<^verbatim>\<open>add\<close>.\<close>

definition add_paths :: "string list \<Rightarrow> string \<Rightarrow> (string \<rightharpoonup> string) \<Rightarrow> (string \<rightharpoonup> string)" where
  "add_paths paths cat m = fold (\<lambda>p m'. if p \<noteq> [] then m'(p \<mapsto> cat) else m') paths m"

text \<open>The twelve calls of \<^verbatim>\<open>add\<close>, in the order of the source.\<close>

definition layer_categories :: "(string \<times> string) list" where
  "layer_categories =
     [(''entrypoints'', ''entrypoint''),
      (''policy'', ''policy''),
      (''q_layer'', ''q_layer''),
      (''canon_identity_boundaries'', ''canon''),
      (''constraints'', ''constraints''),
      (''routing_discovery'', ''discovery''),
      (''ontology'', ''ontology''),
      (''ontology_fallback'', ''ontology''),
      (''index'', ''index''),
      (''observation'', ''observation''),
      (''traceability'', ''traceability''),
      (''reporting'', ''reporting'')]"

definition build_category_map :: "(string \<rightharpoonup> string list) \<Rightarrow> (string \<rightharpoonup> string)" where
  "build_category_map layers =
     fold (\<lambda>lc m. add_paths (layer_paths layers (fst lc)) (snd lc) m) layer_categories Map.empty"

section \<open>Metrics (\<^verbatim>\<open>metrics.compute_q_metrics\<close>)\<close>

text \<open>
  The scope configuration as \<^verbatim>\<open>compute_q_metrics\<close> reads it: the layers and, for each entry of
  \<^verbatim>\<open>expected_sequences\<close>, its \<^verbatim>\<open>pattern\<close> (empty when the entry has none).
\<close>

record scope =
  layers :: "string \<rightharpoonup> string list"
  expected_sequences :: "string list list"

definition build_exact_path_to_category :: "scope \<Rightarrow> (string \<rightharpoonup> string)" where
  "build_exact_path_to_category sc =
     fold (\<lambda>lc m. fold (\<lambda>p m'. m'(p \<mapsto> snd lc)) (layer_paths (layers sc) (fst lc)) m)
          layer_categories Map.empty"

definition classify_path_with_scope :: "string \<Rightarrow> (string \<rightharpoonup> string) \<Rightarrow> string" where
  "classify_path_with_scope p exact_map = (case exact_map p of Some c \<Rightarrow> c | None \<Rightarrow> ''other'')"

definition compress_consecutive :: "string list \<Rightarrow> string list" where
  "compress_consecutive items = foldl (\<lambda>out x. if out = [] \<or> last out \<noteq> x then out @ [x] else out) [] items"

definition normalize_categories_for_metrics :: "string list \<Rightarrow> string list" where
  "normalize_categories_for_metrics cats = compress_consecutive (filter (\<lambda>c. c \<noteq> [] \<and> c \<noteq> ''other'') cats)"

text \<open>The loop of \<^verbatim>\<open>subsequence_match\<close>, with its index \<open>j\<close> into \<open>expected\<close>.\<close>

fun subsequence_loop :: "string list \<Rightarrow> string list \<Rightarrow> nat \<Rightarrow> bool" where
  "subsequence_loop [] expected j = False"
| "subsequence_loop (c # seq) expected j =
     (if c = expected ! j
      then (if j + 1 = length expected then True else subsequence_loop seq expected (j + 1))
      else subsequence_loop seq expected j)"

definition subsequence_match :: "string list \<Rightarrow> string list \<Rightarrow> bool" where
  "subsequence_match seq expected = (if expected = [] then True else subsequence_loop seq expected 0)"

definition layer_to_cat :: "string \<Rightarrow> string" where
  "layer_to_cat x =
     (case map_of [(''entrypoints'', ''entrypoint''), (''policy'', ''policy''), (''q_layer'', ''q_layer''),
                   (''constraints'', ''constraints''), (''index'', ''index''), (''ontology'', ''ontology''),
                   (''content'', ''content'')] x
      of Some c \<Rightarrow> c | None \<Rightarrow> x)"

definition compute_expected_patterns :: "scope option \<Rightarrow> string list \<times> string list" where
  "compute_expected_patterns sc =
     (let expected_pattern_full =
            (case sc of
               None \<Rightarrow> []
             | Some s \<Rightarrow> (case expected_sequences s of [] \<Rightarrow> [] | p # rest \<Rightarrow> map layer_to_cat p))
      in (expected_pattern_full, [''entrypoint'', ''constraints'', ''ontology'']))"

definition map_canon_to_constraints_for_checks :: "string list \<Rightarrow> string list" where
  "map_canon_to_constraints_for_checks cats = map (\<lambda>c. if c = ''canon'' then ''constraints'' else c) cats"

text \<open>
  The categories of a session as both passes take them: \<^verbatim>\<open>path_categories\<close> of the ledger, or
  the paths classified with the scope when the ledger has none; then normalised.
\<close>

definition session_cats :: "(string \<rightharpoonup> string) \<Rightarrow> session \<Rightarrow> string list" where
  "session_cats exact_map s =
     normalize_categories_for_metrics
       (if path_categories s = [] then map (\<lambda>p. classify_path_with_scope p exact_map) (s_path s)
        else path_categories s)"

definition governed_categories :: "string list" where
  "governed_categories =
     [''policy'', ''q_layer'', ''constraints'', ''ontology'', ''index'', ''reporting'',
      ''traceability'', ''observation'', ''discovery'']"

record counters =
  sessions_total :: nat
  entrypoint_first :: nat
  constraints_touched :: nat
  escaped :: nat
  seq_match :: nat
  governance_only_mode :: bool
  used_pattern :: "string list option"

text \<open>One pass of the second loop over the sessions.\<close>

definition count_session ::
  "string list \<Rightarrow> string list \<Rightarrow> bool \<Rightarrow> (string \<rightharpoonup> string) \<Rightarrow> counters \<Rightarrow> session \<Rightarrow> counters" where
  "count_session expected_pattern_full expected_pattern_governance_only observed_any_content exact_map acc s =
     (let cats = session_cats exact_map s in
      if cats = [] then acc
      else
        let cats_for_checks = map_canon_to_constraints_for_checks cats;
            acc1 = acc\<lparr>sessions_total := sessions_total acc + 1,
                       entrypoint_first := entrypoint_first acc + (if hd cats = ''entrypoint'' then 1 else 0),
                       constraints_touched := constraints_touched acc
                          + (if ''constraints'' \<in> set cats_for_checks then 1 else 0),
                       escaped := escaped acc
                          + (if ''entrypoint'' \<notin> set cats_for_checks
                                \<and> (\<exists>c \<in> set cats_for_checks. c \<in> set governed_categories)
                             then 1 else 0)\<rparr>
        in if expected_pattern_full \<noteq> [] \<and> observed_any_content
           then acc1\<lparr>used_pattern := Some expected_pattern_full,
                     seq_match := seq_match acc1
                        + (if subsequence_match cats_for_checks expected_pattern_full then 1 else 0)\<rparr>
           else acc1\<lparr>governance_only_mode := True,
                     used_pattern := Some expected_pattern_governance_only,
                     seq_match := seq_match acc1
                        + (if subsequence_match cats_for_checks expected_pattern_governance_only then 1 else 0)\<rparr>)"

text \<open>The first pass: does any session show the category \<^verbatim>\<open>content\<close>?\<close>

definition observed_content :: "(string \<rightharpoonup> string) \<Rightarrow> session list \<Rightarrow> bool" where
  "observed_content exact_map sessions = (\<exists>s \<in> set sessions. ''content'' \<in> set (session_cats exact_map s))"

text \<open>
  \<^verbatim>\<open>compute_q_metrics\<close> on the sessions of a ledger: the counters after the second loop, from
  which the rates, the counts, \<^verbatim>\<open>expected_pattern_used\<close> and the notes of the result are built.
\<close>

definition compute_q_metrics :: "session list \<Rightarrow> scope option \<Rightarrow> counters" where
  "compute_q_metrics sessions sc =
     (let exact_map = (case sc of Some s \<Rightarrow> build_exact_path_to_category s | None \<Rightarrow> Map.empty);
          patterns = compute_expected_patterns sc;
          observed_any_content = observed_content exact_map sessions
      in foldl (count_session (fst patterns) (snd patterns) observed_any_content exact_map)
           \<lparr>sessions_total = 0, entrypoint_first = 0, constraints_touched = 0, escaped = 0,
            seq_match = 0, governance_only_mode = False, used_pattern = None\<rparr>
           sessions)"

definition rate :: "nat \<Rightarrow> nat \<Rightarrow> rat option" where
  "rate n total' = (if total' \<noteq> 0 then Some (of_nat n / of_nat total') else None)"

definition sequence_fidelity :: "counters \<Rightarrow> rat option" where
  "sequence_fidelity m = rate (seq_match m) (sessions_total m)"

section \<open>Example inputs\<close>

text \<open>
  The row of \<^verbatim>\<open>test_infer_sessions_single_hit_cap\<close>: one request to
  \<^verbatim>\<open>/.well-known/q-ledger.json\<close> at 2026-02-17T00:00:00Z, and the same request at another time
  or from another address.
\<close>

definition test_ts :: datetime where
  "test_ts = \<lparr>year = 2026, month = 2, day = 17, hour = 0, minute = 0, second = 0, microsecond = 0\<rparr>"

definition test_row :: "datetime \<Rightarrow> string \<Rightarrow> LogRow" where
  "test_row t addr =
     \<lparr>ts = t, ip = addr, ua = ''ua'', path = ''/.well-known/q-ledger.json'', host = ''example.com'',
      http_method = ''GET'', status = ''200''\<rparr>"

definition test_sessions :: "LogRow list \<Rightarrow> session list" where
  "test_sessions rows =
     infer_sessions (\<lambda>s. s) rows ''example.com'' ''test-salt'' 30 [''/.well-known/q-ledger.json''] Map.empty"

text \<open>
  The columns and the header of \<^verbatim>\<open>test_load_rows_stats\<close>, and a line like its first one whose
  \<^verbatim>\<open>ClientRequestPath\<close> is empty.
\<close>

definition test_columns :: columns where
  "test_columns =
     \<lparr>col_ts = ''EdgeStartTimestamp'', col_ip = ''ClientIP'', col_ua = ''ClientRequestUserAgent'',
      col_path = ''ClientRequestPath'', col_host = ''ClientRequestHost'',
      col_method = Some ''ClientRequestMethod'', col_status = Some ''EdgeResponseStatus''\<rparr>"

definition test_fieldnames :: "string list" where
  "test_fieldnames =
     [''RayID'', ''EdgeStartTimestamp'', ''ClientIP'', ''ClientRequestUserAgent'', ''ClientRequestPath'',
      ''ClientRequestHost'', ''ClientRequestMethod'', ''EdgeResponseStatus'']"

definition csv_line :: "string list \<Rightarrow> csv_row" where
  "csv_line values = map_of (zip test_fieldnames values)"

definition empty_path_line :: csv_row where
  "empty_path_line =
     csv_line [''ghi'', ''2026-02-17T00:00:00Z'', ''1.1.1.1'', ''ua'', '''', ''example.com'', ''GET'', ''200'']"

text \<open>The same dict built in the opposite insertion order.\<close>

definition reversed_keys :: "json \<Rightarrow> json" where
  "reversed_keys j = (case j of JObj kvs \<Rightarrow> JObj (rev kvs) | _ \<Rightarrow> j)"

text \<open>A first run of \<^verbatim>\<open>main\<close> with no sessions, and a state file left by an earlier run.\<close>

definition test_main :: "disk \<Rightarrow> py_error + (json \<times> disk)" where
  "test_main state_file =
     main (\<lambda>s. s) (\<lambda>x. ''0.5'') (JStr ''https://example.com/'') ''2026-02-17T00:00:00Z'' 30
       (JStr ''manual'') (JObj [(''rows_total'', JInt 0), (''rows_loaded'', JInt 0), (''rows_skipped'', JInt 0)])
       [] state_file"


text \<open>The dicts of \<^verbatim>\<open>test_canonical_json_hash_stable\<close>.\<close>

definition test_dict_ba :: json where
  "test_dict_ba = JObj [(''b'', JInt 2), (''a'', JInt 1)]"

definition test_dict_ab :: json where
  "test_dict_ab = JObj [(''a'', JInt 1), (''b'', JInt 2)]"

text \<open>
  A session of a ledger as \<^verbatim>\<open>compute_q_metrics\<close> reads it: only \<^verbatim>\<open>path\<close> and \<^verbatim>\<open>path_categories\<close>
  are looked at in the two passes.
\<close>

definition ledger_session :: "string list \<Rightarrow> string list \<Rightarrow> session" where
  "ledger_session paths cats =
     \<lparr>session_id = [], window_start = [], window_end = [], client_fingerprint_hash = [],
      confidence = 5 / 100, s_path = paths, path_categories = cats, signals = [],
      confidence_level = ''low'', primary_signal = ''unknown'', human_readable_hypothesis = [],
      warning = []\<rparr>"

text \<open>A scope that declares the pattern entrypoints, constraints, content.\<close>

definition test_scope :: scope where
  "test_scope =
     \<lparr>layers = [''entrypoints'' \<mapsto> [''/llms.txt''], ''canon_identity_boundaries'' \<mapsto> [''/canon.md'']],
      expected_sequences = [[''entrypoints'', ''constraints'', ''content'']]\<rparr>"

text \<open>Layers of a scope as \<^verbatim>\<open>build_category_map\<close> receives them.\<close>

definition test_layers :: "string \<rightharpoonup> string list" where
  "test_layers =
     [''entrypoints'' \<mapsto> [''/llms.txt''], ''canon_identity_boundaries'' \<mapsto> [''/canon.md''],
      ''ontology'' \<mapsto> [''/.well-known/q-ledger.json'']]"

section \<open>Properties of the session scorer\<close>

lemma round2_bounds:
  assumes "of_int a / 100 \<le> x" "x \<le> of_int b / 100"
  shows "of_int a / 100 \<le> round2 x \<and> round2 x \<le> of_int b / 100"
proof -
  have "of_int a \<le> x * 100" using assms(1) by (simp add: field_simps)
  then have "round (of_int a :: rat) \<le> round (x * 100)" by (rule round_mono)
  then have lo: "a \<le> round (x * 100)" by simp
  have "x * 100 \<le> of_int b" using assms(2) by (simp add: field_simps)
  then have "round (x * 100) \<le> round (of_int b :: rat)" by (rule round_mono)
  then have hi: "round (x * 100) \<le> b" by simp
  have "(of_int a :: rat) \<le> of_int (round (x * 100))" using lo by simp
  moreover have "(of_int (round (x * 100)) :: rat) \<le> of_int b" using hi by simp
  ultimately show ?thesis by (simp add: round2_def divide_right_mono)
qed

lemma raw_confidence_bounds:
  "5 / 100 \<le> raw_confidence n g ps \<and> raw_confidence n g ps \<le> 95 / 100"
  by (simp add: raw_confidence_def Let_def min_def max_def)

lemma raw_confidence_single: "raw_confidence 1 g ps \<le> 55 / 100"
  by (simp add: raw_confidence_def Let_def)

lemma confidence_make_session:
  "confidence (make_session sha gov ptc fp chunk) =
     round2 (raw_confidence (length chunk) (gov_hits_of gov (map path chunk)) (map path chunk))"
  by (simp add: make_session_def Let_def)

lemma s_path_make_session: "s_path (make_session sha gov ptc fp chunk) = map path chunk"
  by (simp add: make_session_def Let_def)

lemma level_make_session_single:
  "length chunk = 1 \<Longrightarrow> confidence_level (make_session sha gov ptc fp chunk) = ''low''"
  by (simp add: make_session_def Let_def)


lemma make_session_confidence_single:
  assumes "length chunk = 1"
  shows "confidence (make_session sha gov ptc fp chunk) \<le> 55 / 100"
  using round2_bounds [of 5 "raw_confidence 1 (gov_hits_of gov (map path chunk)) (map path chunk)" 55]
    raw_confidence_bounds [of 1 "gov_hits_of gov (map path chunk)" "map path chunk"]
    raw_confidence_single [of "gov_hits_of gov (map path chunk)" "map path chunk"] assms
  by (simp add: confidence_make_session)

lemma set_flush:
  "s \<in> set (flush sha gov ptc fp chunk) \<longleftrightarrow> chunk \<noteq> [] \<and> s = make_session sha gov ptc fp chunk"
  by (auto simp: flush_def)

lemma infer_sessions_elem:
  assumes "s \<in> set (infer_sessions sha rows site_host salt gap_minutes gov ptc)"
  shows "\<exists>fp chunk. chunk \<noteq> [] \<and> s = make_session sha gov ptc fp chunk"
  using assms
  by (auto simp: infer_sessions_def Let_def group_sessions_def set_flush)

lemma test_sessions_single:
  "test_sessions [test_row test_ts ''1.2.3.4''] \<noteq> [] \<and>
   length (s_path (hd (test_sessions [test_row test_ts ''1.2.3.4'']))) = 1"
  by code_simp

text \<open>
  C3. Every session that \<^verbatim>\<open>infer_sessions\<close> returns with exactly one request reports a confidence
  of at most 0.55 and the confidence level \<^verbatim>\<open>low\<close>, whatever the rows, the governance paths and
  the category map are.
\<close>

theorem single_request_session_capped:
  "\<forall>s \<in> set (infer_sessions sha rows site_host salt gap_minutes gov ptc).
     length (s_path s) = 1 \<longrightarrow> confidence s \<le> 55 / 100 \<and> confidence_level s = ''low''"
proof (intro ballI impI)
  fix s
  assume mem: "s \<in> set (infer_sessions sha rows site_host salt gap_minutes gov ptc)"
    and one: "length (s_path s) = 1"
  from infer_sessions_elem [OF mem] obtain fp chunk
    where s: "s = make_session sha gov ptc fp chunk" by blast
  have len: "length chunk = 1" using one s by (simp add: s_path_make_session)
  show "confidence s \<le> 55 / 100 \<and> confidence_level s = ''low''"
    using s make_session_confidence_single [OF len] level_make_session_single [OF len] by simp
qed

theorem single_request_session_capped_witness:
  "\<exists>s \<in> set (test_sessions [test_row test_ts ''1.2.3.4'']).
     length (s_path s) = 1 \<and> confidence s \<le> 55 / 100 \<and> confidence_level s = ''low''"
proof -
  let ?out = "test_sessions [test_row test_ts ''1.2.3.4'']"
  have mem: "hd ?out \<in> set ?out" using test_sessions_single by simp
  have one: "length (s_path (hd ?out)) = 1" using test_sessions_single by simp
  have "confidence (hd ?out) \<le> 55 / 100 \<and> confidence_level (hd ?out) = ''low''"
    using single_request_session_capped [unfolded test_sessions_def [symmetric], rule_format, of "hd ?out"]
      mem one
    unfolding test_sessions_def by blast
  then show ?thesis using mem one by blast
qed




section \<open>Properties of the session grouper\<close>

















section \<open>Order of the returned sessions\<close>

lemma infer_sessions_sorted_by_start_text:
  "sorted (map window_start (infer_sessions sha rows site_host salt gap_minutes gov ptc))"
  by (simp add: infer_sessions_def Let_def)

lemma infer_sessions_no_empty_session:
  "s \<in> set (infer_sessions sha rows site_host salt gap_minutes gov ptc) \<Longrightarrow> s_path s \<noteq> []"
  using infer_sessions_elem [of s sha rows site_host salt gap_minutes gov ptc]
  by (auto simp: s_path_make_session)

lemma digit_chars:
  "char_of (48::nat) = CHR ''0''" "char_of (49::nat) = CHR ''1''" "char_of (50::nat) = CHR ''2''"
  "char_of (51::nat) = CHR ''3''" "char_of (52::nat) = CHR ''4''" "char_of (53::nat) = CHR ''5''"
  "char_of (54::nat) = CHR ''6''" "char_of (55::nat) = CHR ''7''" "char_of (56::nat) = CHR ''8''"
  "char_of (57::nat) = CHR ''9''"
  by code_simp+

lemma start_texts:
  "isoformat_z test_ts = ''2026-02-17T00:00:00Z'' \<and>
   isoformat_z (test_ts\<lparr>microsecond := 500000\<rparr>) = ''2026-02-17T00:00:00.500000Z''"
  by (simp add: isoformat_z_def iso_body_def zpad_def digits.simps test_ts_def digit_chars)

lemma half_second_later: "dt_sub (test_ts\<lparr>microsecond := 500000\<rparr>) test_ts = 500000"
  by (simp add: dt_sub_def total_us_def test_ts_def)

lemma start_text_order: "\<not> (''2026-02-17T00:00:00Z'' :: string) \<le> ''2026-02-17T00:00:00.500000Z''"
  by code_simp

lemma window_start_make_session:
  "window_start (make_session sha gov ptc fp chunk) = isoformat_z (ts (hd chunk))"
  by (simp add: make_session_def Let_def)

lemma group_sessions_single:
  "group_sessions sha gap gov ptc (fp, [r]) = [make_session sha gov ptc fp [r]]"
  by (simp add: group_sessions_def flush_def)

lemma two_clients_grouped: assumes "sha ''1.2.3.4|ua|test-salt'' \<noteq> sha ''1.2.3.5|ua|test-salt''"
  shows "group_rows sha ''test-salt''
             [test_row test_ts ''1.2.3.4'', test_row (test_ts\<lparr>microsecond := 500000\<rparr>) ''1.2.3.5'']
           = [(sha ''1.2.3.4|ua|test-salt'', [test_row test_ts ''1.2.3.4'']),
              (sha ''1.2.3.5|ua|test-salt'', [test_row (test_ts\<lparr>microsecond := 500000\<rparr>) ''1.2.3.5''])]"
    using assms by (simp add: group_rows_def fingerprint_hash_def str_or_def test_row_def)

text \<open>
  C6. Two clients with different fingerprints send one request each, the first at
  2026-02-17T00:00:00Z and the second half a second later. \<^verbatim>\<open>infer_sessions\<close> sorts the sessions
  by the text of their window start, and the text of the later instant
  (\<^verbatim>\<open>2026-02-17T00:00:00.500000Z\<close>) is smaller than the text of the earlier one
  (\<^verbatim>\<open>2026-02-17T00:00:00Z\<close>): the session that starts later is returned first.
\<close>

theorem later_session_returned_first:
  assumes "sha ''1.2.3.4|ua|test-salt'' \<noteq> sha ''1.2.3.5|ua|test-salt''"
  shows "map window_start
           (infer_sessions sha
              [test_row test_ts ''1.2.3.4'', test_row (test_ts\<lparr>microsecond := 500000\<rparr>) ''1.2.3.5'']
              ''example.com'' ''test-salt'' 30 [''/.well-known/q-ledger.json''] Map.empty)
         = [''2026-02-17T00:00:00.500000Z'', ''2026-02-17T00:00:00Z'']
         \<and> isoformat_z test_ts = ''2026-02-17T00:00:00Z''
         \<and> isoformat_z (test_ts\<lparr>microsecond := 500000\<rparr>) = ''2026-02-17T00:00:00.500000Z''
         \<and> 0 < dt_sub (test_ts\<lparr>microsecond := 500000\<rparr>) test_ts"
proof -
  let ?a = "test_row test_ts ''1.2.3.4''"
  let ?b = "test_row (test_ts\<lparr>microsecond := 500000\<rparr>) ''1.2.3.5''"
  let ?gov = "[''/.well-known/q-ledger.json'']"
  let ?sa = "make_session sha ?gov Map.empty (sha ''1.2.3.4|ua|test-salt'') [?a]"
  let ?sb = "make_session sha ?gov Map.empty (sha ''1.2.3.5|ua|test-salt'') [?b]"
  have f: "filter (\<lambda>r. host r = ''example.com'') [?a, ?b] = [?a, ?b]"
    by (simp add: test_row_def)
  have wa: "window_start ?sa = ''2026-02-17T00:00:00Z''"
    using start_texts by (simp add: window_start_make_session test_row_def)
  have wb: "window_start ?sb = ''2026-02-17T00:00:00.500000Z''"
    using start_texts by (simp add: window_start_make_session test_row_def)
  have ne: "(''example.com'' :: string) \<noteq> []" by simp
  have "infer_sessions sha [?a, ?b] ''example.com'' ''test-salt'' 30 ?gov Map.empty
        = sort_key window_start
            (concat (map (group_sessions sha (timedelta_minutes 30) ?gov Map.empty)
               (group_rows sha ''test-salt'' (filter (\<lambda>r. host r = ''example.com'') [?a, ?b]))))"
    by (simp only: infer_sessions_def Let_def ne if_True not_False_eq_True)
  also have "\<dots> = sort_key window_start [?sa, ?sb]"
    by (simp only: f two_clients_grouped [OF assms] list.map group_sessions_single concat.simps append.simps)
  also have "\<dots> = [?sb, ?sa]"
    using start_text_order by (simp add: wa wb)
  finally have "map window_start
       (infer_sessions sha [?a, ?b] ''example.com'' ''test-salt'' 30 ?gov Map.empty)
      = [''2026-02-17T00:00:00.500000Z'', ''2026-02-17T00:00:00Z'']"
    by (simp add: wa wb)
  then show ?thesis using start_texts half_second_later by simp
qed

theorem later_session_returned_first_witness:
  "map window_start
     (test_sessions [test_row test_ts ''1.2.3.4'', test_row (test_ts\<lparr>microsecond := 500000\<rparr>) ''1.2.3.5''])
   = [''2026-02-17T00:00:00.500000Z'', ''2026-02-17T00:00:00Z'']"
proof -
  have "(\<lambda>s::string. s) ''1.2.3.4|ua|test-salt'' \<noteq> (\<lambda>s. s) ''1.2.3.5|ua|test-salt''" by simp
  from later_session_returned_first [of "\<lambda>s. s", OF this] show ?thesis
    by (simp add: test_sessions_def)
qed

section \<open>Ingestion counters\<close>

lemma load_row_total: "total_rows (load_row lib cols headers acc r) = total_rows acc + 1"
  by (simp add: load_row_def Let_def split: sum.splits)

lemma foldl_load_row_total:
  "total_rows (foldl (load_row lib cols headers) acc reader) = total_rows acc + length reader"
  by (induction reader arbitrary: acc) (simp_all add: load_row_total)

lemma load_row_counts:
  "total_rows (load_row lib cols headers acc r) + length (acc_rows acc) + skipped_rows acc
   = total_rows acc + length (acc_rows (load_row lib cols headers acc r))
     + skipped_rows (load_row lib cols headers acc r)
     + (if (\<exists>t. parse_ts lib (get_case_insensitive r headers (col_ts cols)) = Inr t)
           \<and> normalize_path (get_case_insensitive r headers (col_path cols)) = [] then 1 else 0)"
  by (simp add: load_row_def Let_def split: sum.splits)

lemma foldl_load_row_counts:
  "total_rows (foldl (load_row lib cols headers) acc reader) + length (acc_rows acc) + skipped_rows acc
   = total_rows acc + length (acc_rows (foldl (load_row lib cols headers) acc reader))
     + skipped_rows (foldl (load_row lib cols headers) acc reader)
     + length (filter (\<lambda>r. (\<exists>t. parse_ts lib (get_case_insensitive r headers (col_ts cols)) = Inr t)
           \<and> normalize_path (get_case_insensitive r headers (col_path cols)) = []) reader)"
proof (induction reader arbitrary: acc)
  case Nil
  then show ?case by simp
next
  case (Cons r reader)
  show ?case
    using Cons.IH [of "load_row lib cols headers acc r"] load_row_counts [of lib cols headers acc r]
    by (simp split: if_splits)
qed

lemma load_rows_counts:
  "rows_total (snd (load_rows lib cols fieldnames reader))
   = rows_loaded (snd (load_rows lib cols fieldnames reader))
     + rows_skipped (snd (load_rows lib cols fieldnames reader))
     + length (filter (\<lambda>r. (\<exists>t. parse_ts lib (get_case_insensitive r (headers_map fieldnames) (col_ts cols)) = Inr t)
           \<and> normalize_path (get_case_insensitive r (headers_map fieldnames) (col_path cols)) = []) reader)"
  using foldl_load_row_counts [of lib cols "headers_map fieldnames"
      "\<lparr>acc_rows = [], total_rows = 0, skipped_rows = 0\<rparr>" reader]
  by (simp add: load_rows_def Let_def)

lemma empty_path_line_fields:
  "get_case_insensitive empty_path_line (headers_map test_fieldnames) (col_ts test_columns) = ''2026-02-17T00:00:00Z''"
  "normalize_path (get_case_insensitive empty_path_line (headers_map test_fieldnames) (col_path test_columns)) = []"
  by code_simp+

lemma parse_ts_z: "parse_ts lib ''2026-02-17T00:00:00Z'' = fromisoformat lib ''2026-02-17T00:00:00''"
  by code_simp

text \<open>
  C7. A CSV line with a well-formed timestamp and an empty path is counted in \<^verbatim>\<open>rows_total\<close>
  and in neither \<^verbatim>\<open>rows_loaded\<close> nor \<^verbatim>\<open>rows_skipped\<close>: for this one-line input \<^verbatim>\<open>load_rows\<close>
  records the statistics 1, 0 and 0.
\<close>

theorem empty_path_row_in_no_counter:
  assumes "fromisoformat lib ''2026-02-17T00:00:00'' = Inr t"
  shows "load_rows lib test_columns test_fieldnames [empty_path_line]
         = ([], \<lparr>rows_total = 1, rows_loaded = 0, rows_skipped = 0\<rparr>)"
  using assms
  by (simp add: load_rows_def load_row_def Let_def empty_path_line_fields parse_ts_z)

theorem empty_path_row_in_no_counter_witness:
  "load_rows \<lparr>fromisoformat = (\<lambda>s. Inr test_ts), fromtimestamp_ms = (\<lambda>n. Inl ValueError)\<rparr>
     test_columns test_fieldnames [empty_path_line]
   = ([], \<lparr>rows_total = 1, rows_loaded = 0, rows_skipped = 0\<rparr>)"
  using empty_path_row_in_no_counter
    [of "\<lparr>fromisoformat = (\<lambda>s. Inr test_ts), fromtimestamp_ms = (\<lambda>n. Inl ValueError)\<rparr>" test_ts]
  by simp

section \<open>The hash chain\<close>



lemma ledger_doc_fields:
  "ledger_field (ledger_doc sq site generated gap ew stats sessions integrity) ''ledger_sequence''
     = Some (JInt sq)"
  "integrity_field (ledger_doc sq site generated gap ew stats sessions integrity) k = map_of integrity k"
  by (simp_all add: ledger_field_def integrity_field_def ledger_doc_def)

lemma integrity_with_hash:
  "map_of (dict_set ''content_hash_sha256'' (JStr h) (integrity_block prev)) ''previous_ledger_hash_sha256''
     = Some prev"
  "map_of (dict_set ''content_hash_sha256'' (JStr h) (integrity_block prev)) ''content_hash_sha256''
     = Some (JStr h)"
  by (simp_all add: integrity_block_def)






section \<open>Canonical hashing\<close>

lemma distinct_map_sort_key: "distinct (map f (sort_key f xs)) = distinct (map f xs)"
  by (induction xs) (auto simp: distinct_insort_key set_insort_key)

lemma keys_sort_key:
  assumes "distinct (map fst xs)" "distinct (map fst ys)" "set (map fst xs) = set (map fst ys)"
  shows "map fst (sort_key fst xs) = map fst (sort_key fst (ys :: ('a::linorder \<times> 'b) list))"
proof (rule sorted_distinct_set_unique)
  show "sorted (map fst (sort_key fst xs))" by (rule sorted_sort_key)
  show "sorted (map fst (sort_key fst ys))" by (rule sorted_sort_key)
  show "distinct (map fst (sort_key fst xs))" using assms(1) by (simp add: distinct_map_sort_key)
  show "distinct (map fst (sort_key fst ys))" using assms(2) by (simp add: distinct_map_sort_key)
  show "set (map fst (sort_key fst xs)) = set (map fst (sort_key fst ys))" using assms(3) by simp
qed

lemma map_sorted_items_cong:
  assumes dx: "distinct (map fst xs)" and dy: "distinct (map fst ys)"
    and ks: "set (map fst xs) = set (map fst ys)"
    and vs: "\<And>k v w. (k, v) \<in> set xs \<Longrightarrow> (k, w) \<in> set ys \<Longrightarrow> g k v = g k w"
  shows "map (\<lambda>kv. g (fst kv) (snd kv)) (sort_key fst xs) =
         map (\<lambda>kv. g (fst kv) (snd kv)) (sort_key fst (ys :: ('a::linorder \<times> 'b) list))"
proof (rule nth_equalityI)
  show "length (map (\<lambda>kv. g (fst kv) (snd kv)) (sort_key fst xs)) =
        length (map (\<lambda>kv. g (fst kv) (snd kv)) (sort_key fst ys))"
    using keys_sort_key [OF dx dy ks] by (metis length_map)
next
  fix i assume "i < length (map (\<lambda>kv. g (fst kv) (snd kv)) (sort_key fst xs))"
  then have ix: "i < length xs" by simp
  have len: "length ys = length xs"
    using keys_sort_key [OF dx dy ks] by (metis length_map length_sort)
  have iy: "i < length ys" using ix len by simp
  let ?a = "sort_key fst xs ! i" and ?b = "sort_key fst ys ! i"
  have "map fst (sort_key fst xs) ! i = map fst (sort_key fst ys) ! i"
    using keys_sort_key [OF dx dy ks] by simp
  then have k: "fst ?a = fst ?b" using ix iy by simp
  have "?a \<in> set xs" using ix by (metis length_sort nth_mem set_sort)
  then have a: "(fst ?a, snd ?a) \<in> set xs" by simp
  have "?b \<in> set ys" using iy by (metis length_sort nth_mem set_sort)
  then have b: "(fst ?a, snd ?b) \<in> set ys" using k by simp
  show "map (\<lambda>kv. g (fst kv) (snd kv)) (sort_key fst xs) ! i =
        map (\<lambda>kv. g (fst kv) (snd kv)) (sort_key fst ys) ! i"
    using ix iy k vs [OF a b] by simp
qed

lemma dumps_same_content: "same_content a b \<Longrightarrow> dumps fr a = dumps fr b"
proof (induction a b rule: same_content.induct)
  case (1 xs ys)
  have dx: "distinct (map fst xs)" and dy: "distinct (map fst ys)"
    and ks: "set (map fst xs) = set (map fst ys)"
    using "1.prems" by simp_all
  have vs: "encode_basestring k @ '':'' @ dumps fr v = encode_basestring k @ '':'' @ dumps fr w"
    if "(k, v) \<in> set xs" "(k, w) \<in> set ys" for k v w
  proof -
    have m: "map_of ys k = Some w" using dy that(2) by simp
    have "same_content v w" using "1.prems" that(1) m by fastforce
    then show ?thesis using "1.IH" [of "(k, v)" w] that(1) m by simp
  qed
  show ?case
    using map_sorted_items_cong [OF dx dy ks, of "\<lambda>k v. encode_basestring k @ '':'' @ dumps fr v"] vs
    by simp
next
  case (2 xs ys)
  have "list_all2 same_content xs ys" using "2.prems" by simp
  then have "map (dumps fr) xs = map (dumps fr) ys"
    using "2.IH"
    by (induction xs ys rule: list_all2_induct) auto
  then show ?case by simp
qed simp_all

lemma without_content_hash_ledger:
  "without_content_hash
     (ledger_doc sq site generated gap ew stats sessions
        (dict_set ''content_hash_sha256'' (JStr h) (integrity_block prev)))
   = ledger_doc sq site generated gap ew stats sessions (integrity_block prev)"
  by (simp add: without_content_hash_def ledger_doc_def integrity_block_def dict_del_def)

lemma main_content_hash:
  assumes "main sha fr site generated gap ew stats sessions st = Inr (ledger, st')"
  shows "integrity_field ledger ''content_hash_sha256''
         = Some (JStr (canonical_json_hash sha fr (without_content_hash ledger)))"
proof -
  from assms obtain state where l: "load_state st = Inr state"
    by (auto simp: main_def split: sum.splits)
  from assms l obtain n where n: "py_int (dict_get state ''ledger_sequence'' (JInt 0)) = Inr n"
    by (auto simp: main_def split: sum.splits)
  show ?thesis
    using assms l n
    by (auto simp: main_def Let_def without_content_hash_ledger ledger_doc_fields integrity_with_hash)
qed

lemma test_dicts_same_content: "same_content test_dict_ba test_dict_ab"
  by code_simp

text \<open>
  C2. Two documents with the same logical content have the same canonical hash, whatever the
  insertion order of the keys of their dicts, at every depth. So the content hash that \<^verbatim>\<open>main\<close>
  stores in a ledger is the canonical hash of every document that has the logical content of
  that ledger without its \<^verbatim>\<open>content_hash_sha256\<close> field.
\<close>

theorem canonical_hash_ignores_key_order:
  "(same_content a b \<longrightarrow> canonical_json_hash sha fr a = canonical_json_hash sha fr b) \<and>
   (main sha fr site generated gap ew stats sessions st = Inr (ledger, st') \<and>
    same_content (without_content_hash ledger) d \<longrightarrow>
      integrity_field ledger ''content_hash_sha256'' = Some (JStr (canonical_json_hash sha fr d)))"
proof (intro conjI impI)
  assume "same_content a b"
  then show "canonical_json_hash sha fr a = canonical_json_hash sha fr b"
    by (simp add: canonical_json_hash_def dumps_same_content [of a b fr])
next
  assume a: "main sha fr site generated gap ew stats sessions st = Inr (ledger, st') \<and>
             same_content (without_content_hash ledger) d"
  then have "dumps fr (without_content_hash ledger) = dumps fr d"
    using dumps_same_content by blast
  then show "integrity_field ledger ''content_hash_sha256'' = Some (JStr (canonical_json_hash sha fr d))"
    using main_content_hash [of sha fr site generated gap ew stats sessions st ledger st'] a
    by (simp add: canonical_json_hash_def)
qed

lemma test_main_reordered:
  "same_content (without_content_hash (fst (projr (test_main Absent))))
     (reversed_keys (without_content_hash (fst (projr (test_main Absent)))))"
  by code_simp

lemma test_main_Absent: "test_main Absent = Inr (fst (projr (test_main Absent)), snd (projr (test_main Absent)))"
  by (simp add: test_main_def main_def load_state_def dict_get_def Let_def)

theorem canonical_hash_ignores_key_order_witness:
  "same_content test_dict_ba test_dict_ab \<and>
   canonical_json_hash (\<lambda>s. s) (\<lambda>x. ''0.5'') test_dict_ba
     = canonical_json_hash (\<lambda>s. s) (\<lambda>x. ''0.5'') test_dict_ab \<and>
   same_content (without_content_hash (fst (projr (test_main Absent))))
     (reversed_keys (without_content_hash (fst (projr (test_main Absent))))) \<and>
   integrity_field (fst (projr (test_main Absent))) ''content_hash_sha256''
     = Some (JStr (canonical_json_hash (\<lambda>s. s) (\<lambda>x. ''0.5'')
         (reversed_keys (without_content_hash (fst (projr (test_main Absent)))))))"
  using canonical_hash_ignores_key_order
    [of test_dict_ba test_dict_ab "\<lambda>s. s" "\<lambda>x. ''0.5''" "JStr ''https://example.com/''"
      "''2026-02-17T00:00:00Z''" 30 "JStr ''manual''"
      "JObj [(''rows_total'', JInt 0), (''rows_loaded'', JInt 0), (''rows_skipped'', JInt 0)]" "[]"
      Absent "fst (projr (test_main Absent))" "snd (projr (test_main Absent))"
      "reversed_keys (without_content_hash (fst (projr (test_main Absent))))"]
    test_dicts_same_content test_main_reordered test_main_Absent
  unfolding test_main_def by blast

section \<open>Writing the state file\<close>

lemma load_state_Truncated: "load_state Truncated = Inl ValueError"
  by (simp add: load_state_def)

text \<open>
  C8, as the claim states it, fails: while \<^verbatim>\<open>save_state\<close> replaces the state of run 1 by the state
  of run 2, the file passes through a content that is neither of the two records, and that
  \<^verbatim>\<open>load_state\<close> cannot read.
\<close>

theorem state_write_not_atomic:
  "Truncated \<in> set (crash_states (Holds [(''ledger_sequence'', JInt 1), (''last_ledger_hash'', JStr ''h1'')])
                       [(''ledger_sequence'', JInt 2), (''last_ledger_hash'', JStr ''h2'')]) \<and>
   Truncated \<noteq> Holds [(''ledger_sequence'', JInt 1), (''last_ledger_hash'', JStr ''h1'')] \<and>
   Truncated \<noteq> Holds [(''ledger_sequence'', JInt 2), (''last_ledger_hash'', JStr ''h2'')] \<and>
   load_state Truncated = Inl ValueError"
  by (simp add: crash_states_def save_state_steps_def load_state_Truncated)

text \<open>
  C8, amended. \<^verbatim>\<open>save_state\<close> overwrites the state file in place. When it has finished, the file
  holds the complete new record. A process that stops during the write leaves the old content,
  the complete new record, or a truncated file; the next run does not read a truncated file as
  a state: \<^verbatim>\<open>load_state\<close> raises and \<^verbatim>\<open>main\<close> ends with that error.
\<close>

theorem state_write_in_place:
  "save_state state = Holds state \<and>
   last (crash_states old state) = Holds state \<and>
   set (crash_states old state) = {old, Truncated, Holds state} \<and>
   load_state Truncated = Inl ValueError \<and>
   main sha fr site generated gap ew stats sessions Truncated = Inl ValueError"
  by (simp add: save_state_def crash_states_def save_state_steps_def load_state_Truncated main_def)

section \<open>Sequence fidelity\<close>

lemma subsequence_loop_subseq:
  "j < length expected \<Longrightarrow> subsequence_loop seq expected j \<longleftrightarrow> subseq (drop j expected) seq"
proof (induction seq arbitrary: j)
  case Nil
  then show ?case by simp
next
  case (Cons c seq)
  have d: "drop j expected = expected ! j # drop (Suc j) expected"
    using Cons.prems by (simp add: Cons_nth_drop_Suc)
  show ?case
  proof (cases "c = expected ! j")
    case True
    show ?thesis
    proof (cases "j + 1 = length expected")
      case True
      then have "drop (Suc j) expected = []" by simp
      then show ?thesis using \<open>c = expected ! j\<close> True d by simp
    next
      case False
      then have "Suc j < length expected" using Cons.prems by simp
      then show ?thesis using Cons.IH [of "Suc j"] \<open>c = expected ! j\<close> False d by simp
    qed
  next
    case False
    then show ?thesis using Cons.IH [of j] Cons.prems d by auto
  qed
qed

lemma subsequence_match_subseq: "subsequence_match seq expected \<longleftrightarrow> subseq expected seq"
  using subsequence_loop_subseq [of 0 expected seq]
  by (cases "expected = []") (simp_all add: subsequence_match_def)

lemma count_session_seq_match:
  "seq_match (count_session full gov_only observed em acc s)
   = seq_match acc
     + (if session_cats em s \<noteq> []
           \<and> subseq (if full \<noteq> [] \<and> observed then full else gov_only)
                (map_canon_to_constraints_for_checks (session_cats em s))
        then 1 else 0)"
  by (simp add: count_session_def Let_def subsequence_match_subseq)

lemma count_session_used_pattern:
  "used_pattern (count_session full gov_only observed em acc s)
   = (if session_cats em s \<noteq> [] then Some (if full \<noteq> [] \<and> observed then full else gov_only)
      else used_pattern acc)"
  by (simp add: count_session_def Let_def)


lemma foldl_count_session_seq_match:
  "seq_match (foldl (count_session full gov_only observed em) acc sessions)
   = seq_match acc
     + length (filter (\<lambda>s. session_cats em s \<noteq> []
           \<and> subseq (if full \<noteq> [] \<and> observed then full else gov_only)
                (map_canon_to_constraints_for_checks (session_cats em s))) sessions)"
  by (induction sessions arbitrary: acc) (simp_all add: count_session_seq_match)

lemma foldl_count_session_used_pattern:
  "used_pattern (foldl (count_session full gov_only observed em) acc sessions)
   = (if \<exists>s \<in> set sessions. session_cats em s \<noteq> []
      then Some (if full \<noteq> [] \<and> observed then full else gov_only)
      else used_pattern acc)"
  by (induction sessions arbitrary: acc) (simp_all add: count_session_used_pattern)






section \<open>The categories of the path classifier\<close>

lemma ran_fold_subset:
  assumes "\<And>x m. x \<in> set xs \<Longrightarrow> ran (f x m) \<subseteq> S \<union> ran m"
  shows "ran (fold f xs m) \<subseteq> S \<union> ran m"
  using assms
proof (induction xs arbitrary: m)
  case Nil
  then show ?case by simp
next
  case (Cons x xs)
  have 1: "ran (fold f xs (f x m)) \<subseteq> S \<union> ran (f x m)"
    using Cons.prems by (intro Cons.IH) simp
  have 2: "ran (f x m) \<subseteq> S \<union> ran m" using Cons.prems by simp
  have "ran (fold f xs (f x m)) \<subseteq> S \<union> ran m"
    using 1 2 by blast
  then show ?case by simp
qed

lemma ran_add_paths: "ran (add_paths paths cat m) \<subseteq> {cat} \<union> ran m"
proof -
  have step: "ran (if p \<noteq> [] then m'(p \<mapsto> cat) else m') \<subseteq> {cat} \<union> ran m'"
    for p :: string and m' :: "string \<rightharpoonup> string"
    by (auto simp: ran_def)
  show ?thesis
    unfolding add_paths_def by (rule ran_fold_subset [OF step])
qed

lemma ran_build_category_map:
  "ran (build_category_map lys)
   \<subseteq> {''entrypoint'', ''policy'', ''q_layer'', ''canon'', ''constraints'', ''discovery'', ''ontology'',
       ''index'', ''observation'', ''traceability'', ''reporting''}"
proof -
  have step: "ran (add_paths (layer_paths lys (fst lc)) (snd lc) m) \<subseteq> snd ` set layer_categories \<union> ran m"
    if "lc \<in> set layer_categories" for lc m
    using ran_add_paths [of "layer_paths lys (fst lc)" "snd lc" m] that by auto
  have gen: "ran (fold (\<lambda>lc m. add_paths (layer_paths lys (fst lc)) (snd lc) m) layer_categories m0)
        \<subseteq> snd ` set layer_categories \<union> ran m0" for m0
  proof (rule ran_fold_subset)
    fix x :: "string \<times> string" and m :: "string \<rightharpoonup> string"
    assume "x \<in> set layer_categories"
    then show "ran (add_paths (layer_paths lys (fst x)) (snd x) m) \<subseteq> snd ` set layer_categories \<union> ran m"
      by (rule step)
  qed
  have "ran (build_category_map lys) \<subseteq> snd ` set layer_categories \<union> ran Map.empty"
    using gen [of Map.empty] by (simp add: build_category_map_def)
  then show ?thesis by (auto simp: layer_categories_def)
qed

lemma ran_fold_upd: "ran (fold (\<lambda>p m'. m'(p \<mapsto> c)) paths m) \<subseteq> {c} \<union> ran m"
proof -
  have step: "ran (m'(p \<mapsto> c)) \<subseteq> {c} \<union> ran m'" for p m'
    by (auto simp: ran_def)
  show ?thesis by (rule ran_fold_subset [OF step])
qed

lemma content_not_in_exact_map: "''content'' \<notin> ran (build_exact_path_to_category sc)"
proof -
  have step: "ran (fold (\<lambda>p m'. m'(p \<mapsto> snd lc)) (layer_paths (layers sc) (fst lc)) m)
              \<subseteq> snd ` set layer_categories \<union> ran m"
    if "lc \<in> set layer_categories" for lc m
    using ran_fold_upd [of "snd lc" "layer_paths (layers sc) (fst lc)" m] that by auto
  have gen: "ran (fold (\<lambda>lc m. fold (\<lambda>p m'. m'(p \<mapsto> snd lc)) (layer_paths (layers sc) (fst lc)) m)
               layer_categories m0)
        \<subseteq> snd ` set layer_categories \<union> ran m0" for m0
  proof (rule ran_fold_subset)
    fix x :: "string \<times> string" and m :: "string \<rightharpoonup> string"
    assume "x \<in> set layer_categories"
    then show "ran (fold (\<lambda>p m'. m'(p \<mapsto> snd x)) (layer_paths (layers sc) (fst x)) m)
               \<subseteq> snd ` set layer_categories \<union> ran m"
      by (rule step)
  qed
  have "ran (build_exact_path_to_category sc) \<subseteq> snd ` set layer_categories \<union> ran Map.empty"
    using gen [of Map.empty] by (simp add: build_exact_path_to_category_def)
  then show ?thesis by (auto simp: layer_categories_def)
qed

lemma content_not_in_category_map: "''content'' \<notin> ran (build_category_map lys)"
  using ran_build_category_map [of lys] by auto

lemma classify_not_content: "''content'' \<notin> ran m \<Longrightarrow> classify m p \<noteq> ''content''"
  by (auto simp: classify_def ran_def split: option.splits)

lemma classify_path_not_content: "''content'' \<notin> ran m \<Longrightarrow> classify_path_with_scope p m \<noteq> ''content''"
  by (auto simp: classify_path_with_scope_def ran_def split: option.splits)

lemma set_foldl_subset:
  assumes "\<And>acc x. set (f acc x) \<subseteq> set acc \<union> {x}"
  shows "set (foldl f acc xs) \<subseteq> set acc \<union> set xs"
proof (induction xs arbitrary: acc)
  case Nil
  then show ?case by simp
next
  case (Cons x xs)
  show ?case using Cons.IH [of "f acc x"] assms [of acc x] by auto
qed

lemma set_compress_consecutive: "set (compress_consecutive items) \<subseteq> set items"
proof -
  have "set (foldl (\<lambda>out x. if out = [] \<or> last out \<noteq> x then out @ [x] else out) [] items)
        \<subseteq> set [] \<union> set items"
    by (rule set_foldl_subset) auto
  then show ?thesis by (simp add: compress_consecutive_def)
qed

lemma set_normalize_categories: "set (normalize_categories_for_metrics cats) \<subseteq> set cats"
  using set_compress_consecutive [of "filter (\<lambda>c. c \<noteq> [] \<and> c \<noteq> ''other'') cats"]
  by (auto simp: normalize_categories_for_metrics_def)

lemma session_cats_no_content:
  assumes "''content'' \<notin> ran em" "''content'' \<notin> set (path_categories s)"
  shows "''content'' \<notin> set (session_cats em s)"
proof -
  have "classify_path_with_scope p em \<noteq> ''content''" for p
    using assms(1) by (rule classify_path_not_content)
  then have "''content'' \<notin> set (map (\<lambda>p. classify_path_with_scope p em) (s_path s))"
    by (metis (no_types, lifting) imageE list.set_map)
  then have "''content'' \<notin> set (if path_categories s = []
          then map (\<lambda>p. classify_path_with_scope p em) (s_path s) else path_categories s)"
    using assms(2) by presburger
  then show ?thesis
    using set_normalize_categories unfolding session_cats_def by blast
qed

lemma path_categories_make_session:
  "path_categories (make_session sha gov ptc fp chunk) = map (classify ptc) (map path chunk)"
  by (simp add: make_session_def Let_def)

lemma infer_sessions_categories:
  assumes "s \<in> set (infer_sessions sha rows site_host salt gap_minutes gov ptc)"
  shows "path_categories s = map (classify ptc) (s_path s)"
proof -
  from infer_sessions_elem [OF assms] obtain fp chunk
    where "s = make_session sha gov ptc fp chunk" by blast
  then show ?thesis by (simp add: path_categories_make_session s_path_make_session)
qed

lemma no_content_observed:
  assumes "\<forall>s \<in> set sessions. path_categories s = map (classify (build_category_map lys)) (s_path s)"
  shows "\<not> observed_content (case sc of Some x \<Rightarrow> build_exact_path_to_category x | None \<Rightarrow> Map.empty) sessions"
proof -
  let ?em = "case sc of Some x \<Rightarrow> build_exact_path_to_category x | None \<Rightarrow> Map.empty"
  have em: "''content'' \<notin> ran ?em"
    using content_not_in_exact_map by (cases sc) simp_all
  have c: "classify (build_category_map lys) p \<noteq> ''content''" for p
    using content_not_in_category_map by (rule classify_not_content)
  have "''content'' \<notin> set (session_cats ?em s)" if "s \<in> set sessions" for s
  proof -
    have "path_categories s = map (classify (build_category_map lys)) (s_path s)"
      using assms that by blast
    then have "''content'' \<notin> set (path_categories s)"
      using c by (metis (no_types, lifting) imageE list.set_map)
    then show ?thesis using em by (intro session_cats_no_content)
  qed
  then show ?thesis unfolding observed_content_def by blast
qed

text \<open>
  C10. The categories that \<^verbatim>\<open>build_category_map\<close> assigns are among the eleven governance
  categories, so \<^verbatim>\<open>content\<close> is never one of them. For a ledger whose sessions carry the
  categories of their paths under such a map (as the sessions returned by \<^verbatim>\<open>infer_sessions\<close>
  do), the first pass of \<^verbatim>\<open>compute_q_metrics\<close> finds no \<^verbatim>\<open>content\<close>, whatever the scope is, and the
  pattern used is the fallback entrypoint, constraints, ontology: \<^verbatim>\<open>expected_pattern_used\<close> is
  never the pattern of the scope, and the sessions counted as matching are those that contain
  the fallback.
\<close>

theorem declared_pattern_never_used:
  "ran (build_category_map lys)
     \<subseteq> {''entrypoint'', ''policy'', ''q_layer'', ''canon'', ''constraints'', ''discovery'', ''ontology'',
         ''index'', ''observation'', ''traceability'', ''reporting''} \<and>
   ''content'' \<notin> ran (build_category_map lys) \<and>
   ((\<forall>s \<in> set sessions. path_categories s = map (classify (build_category_map lys)) (s_path s)) \<longrightarrow>
      \<not> observed_content (case sc of Some x \<Rightarrow> build_exact_path_to_category x | None \<Rightarrow> Map.empty) sessions \<and>
      used_pattern (compute_q_metrics sessions sc)
        = (if \<exists>s \<in> set sessions.
                session_cats (case sc of Some x \<Rightarrow> build_exact_path_to_category x | None \<Rightarrow> Map.empty) s \<noteq> []
           then Some [''entrypoint'', ''constraints'', ''ontology''] else None) \<and>
      seq_match (compute_q_metrics sessions sc)
        = length (filter (\<lambda>s.
            session_cats (case sc of Some x \<Rightarrow> build_exact_path_to_category x | None \<Rightarrow> Map.empty) s \<noteq> [] \<and>
            subseq [''entrypoint'', ''constraints'', ''ontology'']
              (map_canon_to_constraints_for_checks
                 (session_cats (case sc of Some x \<Rightarrow> build_exact_path_to_category x | None \<Rightarrow> Map.empty) s)))
            sessions)) \<and>
   (\<forall>s \<in> set (infer_sessions sha rows site_host salt gap_minutes gov (build_category_map lys)).
      path_categories s = map (classify (build_category_map lys)) (s_path s))"
proof (intro conjI impI)
  show "ran (build_category_map lys)
     \<subseteq> {''entrypoint'', ''policy'', ''q_layer'', ''canon'', ''constraints'', ''discovery'', ''ontology'',
         ''index'', ''observation'', ''traceability'', ''reporting''}"
    by (rule ran_build_category_map)
  show "''content'' \<notin> ran (build_category_map lys)" by (rule content_not_in_category_map)
  show "\<forall>s \<in> set (infer_sessions sha rows site_host salt gap_minutes gov (build_category_map lys)).
      path_categories s = map (classify (build_category_map lys)) (s_path s)"
    using infer_sessions_categories by blast
next
  assume a: "\<forall>s \<in> set sessions. path_categories s = map (classify (build_category_map lys)) (s_path s)"
  let ?em = "case sc of Some x \<Rightarrow> build_exact_path_to_category x | None \<Rightarrow> Map.empty"
  have n: "\<not> observed_content ?em sessions" using a by (rule no_content_observed)
  have g: "snd (compute_expected_patterns sc) = [''entrypoint'', ''constraints'', ''ontology'']"
    by (simp add: compute_expected_patterns_def Let_def)
  show "\<not> observed_content ?em sessions" by (rule n)
  show "used_pattern (compute_q_metrics sessions sc)
        = (if \<exists>s \<in> set sessions. session_cats ?em s \<noteq> []
           then Some [''entrypoint'', ''constraints'', ''ontology''] else None)"
    unfolding compute_q_metrics_def Let_def
    by (simp add: foldl_count_session_used_pattern g n)
  show "seq_match (compute_q_metrics sessions sc)
        = length (filter (\<lambda>s. session_cats ?em s \<noteq> [] \<and>
            subseq [''entrypoint'', ''constraints'', ''ontology'']
              (map_canon_to_constraints_for_checks (session_cats ?em s))) sessions)"
    unfolding compute_q_metrics_def Let_def
    by (simp add: foldl_count_session_seq_match g n)
qed

lemma test_layers_classified:
  "map (classify (build_category_map test_layers)) [''/llms.txt'', ''/canon.md'', ''/x'', ''/.well-known/q-ledger.json'']
   = [''entrypoint'', ''canon'', ''other'', ''ontology'']"
  by code_simp

lemma test_layers_cats:
  "session_cats (build_exact_path_to_category test_scope)
     (ledger_session [''/llms.txt'', ''/canon.md'', ''/x'', ''/.well-known/q-ledger.json'']
        [''entrypoint'', ''canon'', ''other'', ''ontology''])
   = [''entrypoint'', ''canon'', ''ontology'']"
  by code_simp

theorem declared_pattern_never_used_witness:
  "path_categories (ledger_session [''/llms.txt'', ''/canon.md'', ''/x'', ''/.well-known/q-ledger.json'']
                      [''entrypoint'', ''canon'', ''other'', ''ontology''])
     = map (classify (build_category_map test_layers))
         (s_path (ledger_session [''/llms.txt'', ''/canon.md'', ''/x'', ''/.well-known/q-ledger.json'']
                    [''entrypoint'', ''canon'', ''other'', ''ontology''])) \<and>
   fst (compute_expected_patterns (Some test_scope)) = [''entrypoint'', ''constraints'', ''content''] \<and>
   used_pattern (compute_q_metrics
       [ledger_session [''/llms.txt'', ''/canon.md'', ''/x'', ''/.well-known/q-ledger.json'']
          [''entrypoint'', ''canon'', ''other'', ''ontology'']] (Some test_scope))
     = Some [''entrypoint'', ''constraints'', ''ontology''] \<and>
   seq_match (compute_q_metrics
       [ledger_session [''/llms.txt'', ''/canon.md'', ''/x'', ''/.well-known/q-ledger.json'']
          [''entrypoint'', ''canon'', ''other'', ''ontology'']] (Some test_scope)) = 1"
proof -
  let ?s = "ledger_session [''/llms.txt'', ''/canon.md'', ''/x'', ''/.well-known/q-ledger.json'']
              [''entrypoint'', ''canon'', ''other'', ''ontology'']"
  have h: "\<forall>s \<in> set [?s]. path_categories s = map (classify (build_category_map test_layers)) (s_path s)"
    using test_layers_classified by (simp add: ledger_session_def)
  have p: "fst (compute_expected_patterns (Some test_scope)) = [''entrypoint'', ''constraints'', ''content'']"
    by code_simp
  from declared_pattern_never_used [of test_layers "[?s]" "Some test_scope"] h
  have "used_pattern (compute_q_metrics [?s] (Some test_scope))
          = (if \<exists>s \<in> set [?s]. session_cats (build_exact_path_to_category test_scope) s \<noteq> []
             then Some [''entrypoint'', ''constraints'', ''ontology''] else None)"
    and "seq_match (compute_q_metrics [?s] (Some test_scope))
          = length (filter (\<lambda>s. session_cats (build_exact_path_to_category test_scope) s \<noteq> [] \<and>
              subseq [''entrypoint'', ''constraints'', ''ontology'']
                (map_canon_to_constraints_for_checks (session_cats (build_exact_path_to_category test_scope) s)))
              [?s])"
    by simp_all
  then show ?thesis
    using h p by (simp add: test_layers_cats map_canon_to_constraints_for_checks_def)
qed

end
